theory Spec2Isabelle
  imports Main "HOL-Library.Word" "HOL-Library.Sublist"
begin

unbundle bit_operations_syntax

section \<open>The browser host: src/web/index.js\<close>

text \<open>
  The host script owns one emulator object \<open>chip8\<close> (an \<open>EmuWasm\<close> made by the generated
  \<open>wasm.js\<close>, which is not part of the sources) and drives it from event handlers.
  JavaScript runs every handler to completion, so a handler is a function from the
  host state to a completion: it returned, or it threw. The emulator is a parameter:
  a record of its six methods, each a function on an abstract emulator state that may
  throw (a trap in the WebAssembly module, or a type error in the glue code).
\<close>

type_synonym byte = "8 word"

definition WIDTH :: nat where "WIDTH = 64"
definition HEIGHT :: nat where "HEIGHT = 32"
definition SCALE :: nat where "SCALE = 12"
definition TICKS_PER_FRAME :: nat where "TICKS_PER_FRAME = 5"

definition ROMS :: "string list" where
  "ROMS = [''15PUZZLE'', ''BLINKY'', ''BLITZ'', ''BRIX'', ''CONNECT4'', ''GUESS'', ''HIDDEN'',
           ''INVADERS'', ''KALEID'', ''MAZE'', ''MERLIN'', ''MISSILE'', ''PONG'', ''PONG2'',
           ''PUZZLE'', ''SYZYGY'', ''TANK'', ''TETRIS'', ''TICTAC'', ''UFO'', ''VBRIX'', ''VERS'',
           ''WIPEOFF'']"

text \<open>A browser \<open>KeyboardEvent\<close>, by the two fields that name the key.\<close>

datatype keyboard_event = KeyboardEvent (key: string) (code: string)

text \<open>The JavaScript values the script hands to the emulator's methods.\<close>

datatype js_value =
    JsUndefined
  | JsNumber int
  | JsEvent keyboard_event
  | JsUint8Array "byte list"

text \<open>
  What a handler does to the world outside its own variables, in the order it does it:
  calls of the emulator's methods, canvas drawing, animation-frame requests, the fetch
  and the console.
\<close>

datatype effect =
    Fetch string
  | Reset
  | LoadGame js_value
  | Tick
  | TickTimers
  | DrawScreen nat
  | Keypress js_value bool
  | FillStyle string
  | FillRect nat nat nat nat
  | RequestAnimationFrame nat
  | CancelAnimationFrame nat
  | ConsoleError string

text \<open>
  The methods of \<open>EmuWasm\<close>. A method returns the emulator's next state and, when it
  throws, the text \<open>${error}\<close> renders the exception as.
\<close>

record 'vm emu_wasm =
  wasm_reset :: "'vm \<Rightarrow> string option \<times> 'vm"
  wasm_load_game :: "js_value \<Rightarrow> 'vm \<Rightarrow> string option \<times> 'vm"
  wasm_tick :: "'vm \<Rightarrow> string option \<times> 'vm"
  wasm_tick_timers :: "'vm \<Rightarrow> string option \<times> 'vm"
  wasm_draw_screen :: "nat \<Rightarrow> 'vm \<Rightarrow> string option \<times> 'vm"
  wasm_keypress :: "js_value \<Rightarrow> bool \<Rightarrow> 'vm \<Rightarrow> string option \<times> 'vm"

text \<open>
  The script's variables: \<open>chip8\<close> and \<open>currentRom\<close> of \<open>run\<close>, the global
  \<open>anim_frame\<close>; the browser's list of requested animation frames (every callback
  the script registers is \<open>() => mainloop(chip8)\<close>, so a request is its handle) and
  the handle the next request will get; and the effects so far.
\<close>

record 'vm host =
  chip8 :: 'vm
  currentRom :: js_value
  anim_frame :: nat
  next_frame_id :: nat
  pending_frames :: "nat list"
  log :: "effect list"

datatype 'vm completion = Returned "'vm host" | Threw string "'vm host"

fun state_of :: "'vm completion \<Rightarrow> 'vm host" where
  "state_of (Returned h) = h"
| "state_of (Threw e h) = h"

fun and_then :: "'vm completion \<Rightarrow> ('vm host \<Rightarrow> 'vm completion) \<Rightarrow> 'vm completion" where
  "and_then (Returned h) f = f h"
| "and_then (Threw e h) f = Threw e h"

definition emit :: "effect \<Rightarrow> 'vm host \<Rightarrow> 'vm host" where
  "emit e h = h\<lparr>log := log h @ [e]\<rparr>"

text \<open>A call of one of the emulator's methods: the call is issued, then it returns or throws.\<close>

definition call :: "effect \<Rightarrow> ('vm \<Rightarrow> string option \<times> 'vm) \<Rightarrow> 'vm host \<Rightarrow> 'vm completion" where
  "call e m h =
     (case m (chip8 h) of
        (None, vm) \<Rightarrow> Returned ((emit e h)\<lparr>chip8 := vm\<rparr>)
      | (Some err, vm) \<Rightarrow> Threw err ((emit e h)\<lparr>chip8 := vm\<rparr>))"

text \<open>\<open>window.requestAnimationFrame\<close> returns a fresh handle; \<open>cancelAnimationFrame\<close>
  drops the request with that handle if there is one.\<close>

definition requestAnimationFrame :: "'vm host \<Rightarrow> nat \<times> 'vm host" where
  "requestAnimationFrame h =
     (let req = next_frame_id h
      in (req, (emit (RequestAnimationFrame req) h)
                \<lparr>next_frame_id := req + 1, pending_frames := pending_frames h @ [req]\<rparr>))"

definition cancelAnimationFrame :: "nat \<Rightarrow> 'vm host \<Rightarrow> 'vm host" where
  "cancelAnimationFrame req h =
     (emit (CancelAnimationFrame req) h)\<lparr>pending_frames := removeAll req (pending_frames h)\<rparr>"

text \<open>\<open>for (let i = 0; i < TICKS_PER_FRAME; i++) { chip8.tick(); }\<close>\<close>

function ticks :: "'vm emu_wasm \<Rightarrow> nat \<Rightarrow> 'vm host \<Rightarrow> 'vm completion" where
  "ticks w i h =
     (if i < TICKS_PER_FRAME
      then (case call Tick (wasm_tick w) h of
              Returned h' \<Rightarrow> ticks w (i + 1) h'
            | Threw e h' \<Rightarrow> Threw e h')
      else Returned h)"
  by pat_completeness auto
termination
  by (relation "measure (\<lambda>(w, i, h). TICKS_PER_FRAME - i)") auto

definition mainloop :: "'vm emu_wasm \<Rightarrow> 'vm host \<Rightarrow> 'vm completion" where
  "mainloop w h =
     and_then (ticks w 0 h) (\<lambda>h.
     and_then (call TickTimers (wasm_tick_timers w) h) (\<lambda>h.
     and_then (Returned (emit (FillStyle ''black'') h)) (\<lambda>h.
     and_then (Returned (emit (FillRect 0 0 (WIDTH * SCALE) (HEIGHT * SCALE)) h)) (\<lambda>h.
     and_then (Returned (emit (FillStyle ''white'') h)) (\<lambda>h.
     and_then (call (DrawScreen SCALE) (wasm_draw_screen w SCALE) h) (\<lambda>h.
     (case requestAnimationFrame h of (req, h) \<Rightarrow> Returned (h\<lparr>anim_frame := req\<rparr>))))))))"

subsection \<open>Loading a ROM\<close>

text \<open>
  How the \<open>fetch\<close> of \<open>loadRom\<close> ends: the promise rejects (a network error, with the
  text the error renders as), or it gives a response, whose \<open>arrayBuffer()\<close> in turn
  gives the body or rejects.
\<close>

record response =
  ok :: bool
  status :: nat
  statusText :: string
  arrayBuffer :: "string + byte list"

datatype fetch_outcome = NetworkError string | Response response

definition digit_char :: "nat \<Rightarrow> char" where
  "digit_char d = ''0123456789'' ! d"

fun decimal :: "nat \<Rightarrow> string" where
  "decimal n = (if n < 10 then [digit_char n] else decimal (n div 10) @ [digit_char (n mod 10)])"

text \<open>\<open>loadRom(rom)\<close> itself only starts the fetch and registers the three callbacks.\<close>

definition loadRom :: "string \<Rightarrow> 'vm host \<Rightarrow> 'vm completion" where
  "loadRom rom h = Returned (emit (Fetch (''roms/'' @ rom)) h)"

text \<open>The first \<open>then\<close>: a promise for the body, or the thrown \<open>Error\<close> as \<open>${error}\<close> prints it.\<close>

definition on_response :: "response \<Rightarrow> string + byte list" where
  "on_response r =
     (if \<not> ok r
      then Inl (''Error: Failed to load ROM: '' @ decimal (status r) @ '' '' @ statusText r)
      else arrayBuffer r)"

text \<open>The second \<open>then\<close>: keep the bytes, reset, load, start the loop.\<close>

definition on_buffer :: "'vm emu_wasm \<Rightarrow> byte list \<Rightarrow> 'vm host \<Rightarrow> 'vm completion" where
  "on_buffer w buffer h =
     (let rom = JsUint8Array buffer in
      and_then (Returned (h\<lparr>currentRom := rom\<rparr>)) (\<lambda>h.
      and_then (call Reset (wasm_reset w) h) (\<lambda>h.
      and_then (call (LoadGame rom) (wasm_load_game w rom) h) (\<lambda>h.
      mainloop w h))))"

text \<open>The \<open>catch\<close>.\<close>

definition on_error :: "string \<Rightarrow> 'vm host \<Rightarrow> 'vm completion" where
  "on_error error h = Returned (emit (ConsoleError (''Failed to load ROM: '' @ error)) h)"

text \<open>
  The chain \<open>fetch(..).then(..).then(..).catch(..)\<close> once the fetch has settled: a
  rejection skips the \<open>then\<close> callbacks, and an exception thrown inside one of them
  rejects the promise the \<open>catch\<close> is attached to.
\<close>

definition loadRom_settled :: "'vm emu_wasm \<Rightarrow> fetch_outcome \<Rightarrow> 'vm host \<Rightarrow> 'vm completion" where
  "loadRom_settled w outcome h =
     (case (case outcome of NetworkError e \<Rightarrow> Inl e | Response r \<Rightarrow> on_response r) of
        Inl e \<Rightarrow> on_error e h
      | Inr buffer \<Rightarrow>
          (case on_buffer w buffer h of
             Returned h' \<Rightarrow> Returned h'
           | Threw e h' \<Rightarrow> on_error e h'))"

subsection \<open>The listeners\<close>

definition keydown :: "'vm emu_wasm \<Rightarrow> keyboard_event \<Rightarrow> 'vm host \<Rightarrow> 'vm completion" where
  "keydown w evt h = call (Keypress (JsEvent evt) True) (wasm_keypress w (JsEvent evt) True) h"

definition keyup :: "'vm emu_wasm \<Rightarrow> keyboard_event \<Rightarrow> 'vm host \<Rightarrow> 'vm completion" where
  "keyup w evt h = call (Keypress (JsEvent evt) False) (wasm_keypress w (JsEvent evt) False) h"

definition start_click :: "'vm host \<Rightarrow> 'vm completion" where
  "start_click h = (case requestAnimationFrame h of (req, h) \<Rightarrow> Returned (h\<lparr>anim_frame := req\<rparr>))"

definition stop_click :: "'vm host \<Rightarrow> 'vm completion" where
  "stop_click h = Returned (cancelAnimationFrame (anim_frame h) h)"

definition restart_click :: "'vm emu_wasm \<Rightarrow> 'vm host \<Rightarrow> 'vm completion" where
  "restart_click w h =
     and_then (Returned (cancelAnimationFrame (anim_frame h) h)) (\<lambda>h.
     and_then (call Reset (wasm_reset w) h) (\<lambda>h.
     and_then (call (LoadGame (currentRom h)) (wasm_load_game w (currentRom h)) h) (\<lambda>h.
     mainloop w h)))"

definition roms_change :: "string \<Rightarrow> 'vm host \<Rightarrow> 'vm completion" where
  "roms_change selectedValue h =
     and_then (Returned (cancelAnimationFrame (anim_frame h) h)) (\<lambda>h.
     loadRom selectedValue h)"

text \<open>The browser runs a requested frame once, unless it was cancelled first.\<close>

definition animation_frame :: "'vm emu_wasm \<Rightarrow> nat \<Rightarrow> 'vm host \<Rightarrow> 'vm completion" where
  "animation_frame w req h =
     (if req \<in> set (pending_frames h)
      then mainloop w (h\<lparr>pending_frames := removeAll req (pending_frames h)\<rparr>)
      else Returned h)"

text \<open>
  \<open>run()\<close>: after \<open>init\<close>, a new emulator, \<open>currentRom\<close> not yet assigned, and the
  default ROM requested. \<open>ROMS[[0]]\<close> indexes with the array \<open>[0]\<close>, which JavaScript
  turns into the property name \<open>"0"\<close>: the first entry.
\<close>

definition run :: "'vm \<Rightarrow> 'vm completion" where
  "run vm =
     loadRom (ROMS ! 0)
       \<lparr>chip8 = vm, currentRom = JsUndefined, anim_frame = 0, next_frame_id = 1,
        pending_frames = [], log = []\<rparr>"

text \<open>What the browser delivers to the script after \<open>run\<close>, one event at a time.\<close>

datatype event =
    KeyDown keyboard_event
  | KeyUp keyboard_event
  | StartClick
  | StopClick
  | RestartClick
  | RomsChange string
  | FetchSettled fetch_outcome
  | AnimationFrame nat

fun handle :: "'vm emu_wasm \<Rightarrow> event \<Rightarrow> 'vm host \<Rightarrow> 'vm completion" where
  "handle w (KeyDown evt) h = keydown w evt h"
| "handle w (KeyUp evt) h = keyup w evt h"
| "handle w StartClick h = start_click h"
| "handle w StopClick h = stop_click h"
| "handle w RestartClick h = restart_click w h"
| "handle w (RomsChange v) h = roms_change v h"
| "handle w (FetchSettled outcome) h = loadRom_settled w outcome h"
| "handle w (AnimationFrame req) h = animation_frame w req h"

text \<open>An exception no handler catches ends that handler only; the page goes on.\<close>

fun run_events :: "'vm emu_wasm \<Rightarrow> event list \<Rightarrow> 'vm host \<Rightarrow> 'vm host" where
  "run_events w [] h = h"
| "run_events w (e # es) h = run_events w es (state_of (handle w e h))"

text \<open>The calls of the emulator's methods among the effects.\<close>

fun is_vm_call :: "effect \<Rightarrow> bool" where
  "is_vm_call Reset = True"
| "is_vm_call (LoadGame v) = True"
| "is_vm_call Tick = True"
| "is_vm_call TickTimers = True"
| "is_vm_call (DrawScreen s) = True"
| "is_vm_call (Keypress v p) = True"
| "is_vm_call e = False"

definition vm_calls :: "effect list \<Rightarrow> effect list" where
  "vm_calls es = filter is_vm_call es"

text \<open>The effects of one whole pass through \<open>mainloop\<close>, \<open>req\<close> being the handle of the
  frame it requests at its end.\<close>

definition frame_effects :: "nat \<Rightarrow> effect list" where
  "frame_effects req =
     replicate TICKS_PER_FRAME Tick @
     [TickTimers, FillStyle ''black'', FillRect 0 0 (WIDTH * SCALE) (HEIGHT * SCALE),
      FillStyle ''white'', DrawScreen SCALE, RequestAnimationFrame req]"

text \<open>The script's variables other than the emulator and the effects are the same in two states.\<close>

definition same_vars :: "'vm host \<Rightarrow> 'vm host \<Rightarrow> bool" where
  "same_vars h h' \<longleftrightarrow>
     currentRom h' = currentRom h \<and> anim_frame h' = anim_frame h \<and>
     next_frame_id h' = next_frame_id h \<and> pending_frames h' = pending_frames h"

text \<open>Every \<open>load_game\<close> call in a list of calls comes directly after a \<open>reset\<close> call.\<close>

fun is_load :: "effect \<Rightarrow> bool" where
  "is_load (LoadGame v) = True"
| "is_load e = False"

primrec loads_follow :: "effect option \<Rightarrow> effect list \<Rightarrow> bool" where
  "loads_follow prev [] = True"
| "loads_follow prev (e # es) =
     ((if is_load e then prev = Some Reset else True) \<and> loads_follow (Some e) es)"

definition loads_after_reset :: "effect list \<Rightarrow> bool" where
  "loads_after_reset es = loads_follow None es"

text \<open>The event is a fetch that ends with the bytes of a ROM, which the second \<open>then\<close> of
  \<open>loadRom\<close> takes.\<close>

fun delivers_rom :: "event \<Rightarrow> bool" where
  "delivers_rom (FetchSettled (Response r)) = (case on_response r of Inl e \<Rightarrow> False | Inr b \<Rightarrow> True)"
| "delivers_rom e = False"

text \<open>The two ways the fetch fails, and the text the rejection reaches the \<open>catch\<close> with.\<close>

fun fetch_failed :: "fetch_outcome \<Rightarrow> bool" where
  "fetch_failed (NetworkError e) = True"
| "fetch_failed (Response r) = (\<not> ok r)"

fun rejection_text :: "fetch_outcome \<Rightarrow> string" where
  "rejection_text (NetworkError e) = e"
| "rejection_text (Response r) =
     ''Error: Failed to load ROM: '' @ decimal (status r) @ '' '' @ statusText r"

text \<open>
  An emulator to run the script against in the examples below. Its state counts the
  instructions run since the last reset; \<open>load_game\<close> throws unless it is given a byte
  array of at most 3584 bytes; no other method throws.
\<close>

definition counting_emu :: "nat emu_wasm" where
  "counting_emu =
     \<lparr>wasm_reset = (\<lambda>n. (None, 0)),
      wasm_load_game = (\<lambda>v n.
        case v of
          JsUint8Array bs \<Rightarrow>
            if length bs \<le> 3584 then (None, n) else (Some ''RuntimeError: unreachable'', n)
        | _ \<Rightarrow> (Some ''TypeError: Cannot read properties of undefined'', n)),
      wasm_tick = (\<lambda>n. (None, n + 1)),
      wasm_tick_timers = (\<lambda>n. (None, n)),
      wasm_draw_screen = (\<lambda>s n. (None, n)),
      wasm_keypress = (\<lambda>v p n. (None, n))\<rparr>"

definition example_host :: "nat host" where
  "example_host = state_of (run 0)"


section \<open>The emulator core, from the specification\<close>

text \<open>
  The interpreter behind \<open>wasm.js\<close> is not among the sources, so the operations below are
  written from the specification's sections 3 and 4, one definition per operation it
  names. Memory, registers, keypad and display are lists of the sizes the specification
  fixes.
\<close>

text \<open>Modelled from the spec: the load error of section 7 and the sizes of section 3 (the
  core's error type and constants are missing).\<close>

datatype vm_error = LoadError

definition RAM_SIZE :: nat where "RAM_SIZE = 4096"
definition START_ADDR :: nat where "START_ADDR = 0x200"
definition SCREEN_WIDTH :: nat where "SCREEN_WIDTH = 64"
definition SCREEN_HEIGHT :: nat where "SCREEN_HEIGHT = 32"

text \<open>Modelled from the spec: the font table, 16 glyphs of 5 bytes in a reserved low
  region. The specification gives the table's shape, not its bits or its base; these are
  the customary hexadecimal glyphs, at address 0.\<close>

definition FONT_BASE :: nat where "FONT_BASE = 0"

definition FONTSET :: "byte list" where
  "FONTSET =
     [0xF0, 0x90, 0x90, 0x90, 0xF0,  0x20, 0x60, 0x20, 0x20, 0x70,
      0xF0, 0x10, 0xF0, 0x80, 0xF0,  0xF0, 0x10, 0xF0, 0x10, 0xF0,
      0x90, 0x90, 0xF0, 0x10, 0x10,  0xF0, 0x80, 0xF0, 0x10, 0xF0,
      0xF0, 0x80, 0xF0, 0x90, 0xF0,  0xF0, 0x10, 0x20, 0x40, 0x40,
      0xF0, 0x90, 0xF0, 0x90, 0xF0,  0xF0, 0x90, 0xF0, 0x10, 0xF0,
      0xF0, 0x90, 0xF0, 0x90, 0x90,  0xE0, 0x90, 0xE0, 0x90, 0xE0,
      0xF0, 0x80, 0x80, 0x80, 0xF0,  0xE0, 0x90, 0x90, 0x90, 0xE0,
      0xF0, 0x80, 0xF0, 0x80, 0xF0,  0xF0, 0x80, 0xF0, 0x80, 0x80]"

text \<open>Modelled from the spec: the machine state of section 3 (the core's state type is
  missing): 4096 bytes of memory, sixteen 8-bit registers, the 16-bit index register and
  program counter, a stack of 16 return addresses with its depth, the two 8-bit timers,
  16 key flags, the register a key wait is for, and the 64 by 32 pixels in row order.\<close>

record chip8_vm =
  memory :: "byte list"
  v_reg :: "byte list"
  i_reg :: "16 word"
  pc :: "16 word"
  stack :: "16 word list"
  depth :: nat
  delay_timer :: byte
  sound_timer :: byte
  keypad :: "bool list"
  awaiting_key :: "nat option"
  display :: "bool list"

text \<open>Modelled from the spec: \<open>write_range(offset, bytes)\<close> of section 4.1 (the memory
  component is missing): it fails if \<open>offset + len(bytes) > 4096\<close>, and otherwise
  replaces the bytes from \<open>offset\<close> on.\<close>

definition overwrite :: "nat \<Rightarrow> byte list \<Rightarrow> byte list \<Rightarrow> byte list" where
  "overwrite offset bytes mem = take offset mem @ bytes @ drop (offset + length bytes) mem"

definition write_range :: "nat \<Rightarrow> byte list \<Rightarrow> byte list \<Rightarrow> vm_error + byte list" where
  "write_range offset bytes mem =
     (if offset + length bytes > RAM_SIZE then Inl LoadError else Inr (overwrite offset bytes mem))"

text \<open>Modelled from the spec: \<open>reset()\<close> of section 3 (the core's reset is missing):
  it reinitializes the font region of memory, zeroes all registers, the stack, the
  timers, the keypad and the display, sets PC to 0x200 and clears awaiting-key mode.\<close>

definition reset :: "chip8_vm \<Rightarrow> chip8_vm" where
  "reset s =
     s\<lparr>memory := overwrite FONT_BASE FONTSET (memory s),
       v_reg := replicate 16 0,
       i_reg := 0,
       pc := 0x200,
       stack := replicate 16 0,
       depth := 0,
       delay_timer := 0,
       sound_timer := 0,
       keypad := replicate 16 False,
       awaiting_key := None,
       display := replicate (SCREEN_WIDTH * SCREEN_HEIGHT) False\<rparr>"

text \<open>Modelled from the spec: \<open>load_game(bytes)\<close> of section 3 (the core's loader is
  missing): it writes the program into memory from 0x200 and resets nothing; when the
  write fails the error is reported and the machine is left as it was.\<close>

definition load_game :: "byte list \<Rightarrow> chip8_vm \<Rightarrow> vm_error option \<times> chip8_vm" where
  "load_game bytes s =
     (case write_range START_ADDR bytes (memory s) of
        Inl e \<Rightarrow> (Some e, s)
      | Inr m \<Rightarrow> (None, s\<lparr>memory := m\<rparr>))"

text \<open>Modelled from the spec: \<open>tick_timers()\<close> of section 4.4 (the core's timers are
  missing): both timers decrement by exactly 1 if currently nonzero.\<close>

definition tick_timers :: "chip8_vm \<Rightarrow> chip8_vm" where
  "tick_timers s =
     s\<lparr>delay_timer := (if delay_timer s > 0 then delay_timer s - 1 else delay_timer s),
       sound_timer := (if sound_timer s > 0 then sound_timer s - 1 else sound_timer s)\<rparr>"

text \<open>Modelled from the spec: \<open>blit(x, y, sprite_bytes)\<close> of sections 4.3 and 4.6 (the
  core's display is missing). Each row is one byte, eight pixels from its most
  significant bit; the row index adds to \<open>y\<close> and wraps modulo 32, the column index adds to
  \<open>x\<close> and wraps modulo 64; every set bit is XORed onto its pixel, and the collision flag
  is the OR over the whole sprite of "this pixel was set and is now cleared".\<close>

definition pixel_index :: "nat \<Rightarrow> nat \<Rightarrow> nat" where
  "pixel_index x y = x mod SCREEN_WIDTH + SCREEN_WIDTH * (y mod SCREEN_HEIGHT)"

definition xor_pixel :: "nat \<Rightarrow> bool list \<times> bool \<Rightarrow> bool list \<times> bool" where
  "xor_pixel idx dc = (case dc of (d, collision) \<Rightarrow> (d[idx := \<not> d ! idx], collision \<or> d ! idx))"

definition blit_row :: "nat \<Rightarrow> nat \<Rightarrow> byte \<Rightarrow> bool list \<times> bool \<Rightarrow> bool list \<times> bool" where
  "blit_row x y b dc =
     fold (\<lambda>col dc. if bit b (7 - col) then xor_pixel (pixel_index (x + col) y) dc else dc)
       [0..<8] dc"

fun blit_rows :: "nat \<Rightarrow> nat \<Rightarrow> byte list \<Rightarrow> bool list \<times> bool \<Rightarrow> bool list \<times> bool" where
  "blit_rows x y [] dc = dc"
| "blit_rows x y (b # bs) dc = blit_rows x (y + 1) bs (blit_row x y b dc)"

definition blit :: "nat \<Rightarrow> nat \<Rightarrow> byte list \<Rightarrow> bool list \<Rightarrow> bool list \<times> bool" where
  "blit x y sprite d = blit_rows x y sprite (d, False)"

text \<open>Two notions to state what a draw does, not operations of the machine: the sprite's
  footprint, that is the pixels its set bits fall on, in drawing order; and the flip of
  one pixel.\<close>

definition row_pixels :: "nat \<Rightarrow> nat \<Rightarrow> byte \<Rightarrow> nat list" where
  "row_pixels x y b =
     map (\<lambda>col. pixel_index (x + col) y) (filter (\<lambda>col. bit b (7 - col)) [0..<8])"

fun footprint :: "nat \<Rightarrow> nat \<Rightarrow> byte list \<Rightarrow> nat list" where
  "footprint x y [] = []"
| "footprint x y (b # bs) = row_pixels x y b @ footprint x (y + 1) bs"

definition flip :: "nat \<Rightarrow> bool list \<Rightarrow> bool list" where
  "flip idx d = d[idx := \<not> d ! idx]"

text \<open>A machine of the right sizes with everything zero, for the examples below.\<close>

definition blank_vm :: chip8_vm where
  "blank_vm =
     \<lparr>memory = replicate 4096 0, v_reg = replicate 16 0, i_reg = 0, pc = 0,
      stack = replicate 16 0, depth = 0, delay_timer = 0, sound_timer = 0,
      keypad = replicate 16 False, awaiting_key = None, display = replicate 2048 False\<rparr>"

text \<open>Modelled from the spec: how the emulator object hands \<open>reset\<close> and \<open>load_game\<close> to the
  core (the wrapper \<open>EmuWasm\<close> is missing). Section 7 has the load error "reported to the
  host at load time"; a method of the object reports by throwing, and the machine is
  the one the core left. What is not a byte array does not reach the core.\<close>

definition emu_reset :: "chip8_vm \<Rightarrow> string option \<times> chip8_vm" where
  "emu_reset s = (None, reset s)"

definition emu_load_game :: "js_value \<Rightarrow> chip8_vm \<Rightarrow> string option \<times> chip8_vm" where
  "emu_load_game v s =
     (case v of
        JsUint8Array bytes \<Rightarrow>
          (case load_game bytes s of
             (None, s') \<Rightarrow> (None, s')
           | (Some LoadError, s') \<Rightarrow> (Some ''LoadError'', s'))
      | _ \<Rightarrow> (Some ''TypeError'', s))"

text \<open>An emulator for the examples below whose reset, load and timers are the core's. Its
  instructions, its drawing and its key presses leave the machine as it is: the
  interpreter's step is not part of this development.\<close>

definition core_emu :: "chip8_vm emu_wasm" where
  "core_emu =
     \<lparr>wasm_reset = emu_reset,
      wasm_load_game = emu_load_game,
      wasm_tick = (\<lambda>s. (None, s)),
      wasm_tick_timers = (\<lambda>s. (None, tick_timers s)),
      wasm_draw_screen = (\<lambda>k s. (None, s)),
      wasm_keypress = (\<lambda>v p s. (None, s))\<rparr>"

definition core_host :: "chip8_vm host" where
  "core_host = state_of (run blank_vm)"


section \<open>Properties of the host\<close>

declare ticks.simps [simp del]

declare decimal.simps [simp del]

lemma call_Returned:
  "call e m h = Returned h' \<Longrightarrow> log h' = log h @ [e] \<and> same_vars h h'"
  by (auto simp: call_def emit_def same_vars_def split: prod.splits option.splits)

lemma call_Threw:
  "call e m h = Threw x h' \<Longrightarrow> log h' = log h @ [e] \<and> same_vars h h'"
  by (auto simp: call_def emit_def same_vars_def split: prod.splits option.splits)

lemma same_vars_refl: "same_vars h h"
  by (simp add: same_vars_def)

lemma same_vars_trans: "same_vars a b \<Longrightarrow> same_vars b c \<Longrightarrow> same_vars a c"
  by (simp add: same_vars_def)

lemma ticks_Returned:
  "ticks w i h = Returned h' \<Longrightarrow>
     log h' = log h @ replicate (TICKS_PER_FRAME - i) Tick \<and> same_vars h h'"
proof (induction w i h rule: ticks.induct)
  case (1 w i h)
  show ?case
  proof (cases "i < TICKS_PER_FRAME")
    case False
    with "1.prems" show ?thesis by (simp add: ticks.simps same_vars_refl)
  next
    case True
    from True "1.prems" obtain h1 where c: "call Tick (wasm_tick w) h = Returned h1"
      and t: "ticks w (i + 1) h1 = Returned h'"
      by (auto simp: ticks.simps [of w i h] split: completion.splits)
    from "1.IH" [OF True c t] call_Returned [OF c] True
    have "log h' = (log h @ [Tick]) @ replicate (TICKS_PER_FRAME - (i + 1)) Tick" and "same_vars h h'"
      by (auto intro: same_vars_trans)
    moreover from True have "TICKS_PER_FRAME - i = Suc (TICKS_PER_FRAME - (i + 1))" by simp
    ultimately show ?thesis by (simp add: replicate_app_Cons_same)
  qed
qed

lemma ticks_Threw:
  "ticks w i h = Threw x h' \<Longrightarrow>
     (\<exists>n. 0 < n \<and> n \<le> TICKS_PER_FRAME - i \<and> log h' = log h @ replicate n Tick) \<and> same_vars h h'"
proof (induction w i h rule: ticks.induct)
  case (1 w i h)
  show ?case
  proof (cases "i < TICKS_PER_FRAME")
    case False
    with "1.prems" show ?thesis by (simp add: ticks.simps)
  next
    case True
    show ?thesis
    proof (cases "call Tick (wasm_tick w) h")
      case (Threw y h1)
      with True "1.prems" have "h1 = h'" by (simp add: ticks.simps [of w i h])
      with call_Threw [OF Threw] True show ?thesis
        by (auto intro!: exI [of _ 1])
    next
      case (Returned h1)
      with True "1.prems" have t: "ticks w (i + 1) h1 = Threw x h'"
        by (simp add: ticks.simps [of w i h])
      from "1.IH" [OF True Returned t] obtain n where
        n: "0 < n" "n \<le> TICKS_PER_FRAME - (i + 1)" "log h' = log h1 @ replicate n Tick"
        and s: "same_vars h1 h'" by blast
      from n call_Returned [OF Returned] have "log h' = log h @ replicate (Suc n) Tick"
        by (simp add: replicate_app_Cons_same)
      moreover from n True have "Suc n \<le> TICKS_PER_FRAME - i" by simp
      ultimately show ?thesis using s call_Returned [OF Returned]
        by (blast intro: same_vars_trans)
    qed
  qed
qed

lemma take_frame_ticks:
  "n \<le> TICKS_PER_FRAME \<Longrightarrow> take n (frame_effects r) = replicate n Tick"
  by (simp add: frame_effects_def min_def)

lemma take_frame_more:
  "take (TICKS_PER_FRAME + k) (frame_effects r) =
     replicate TICKS_PER_FRAME Tick @
     take k [TickTimers, FillStyle ''black'', FillRect 0 0 (WIDTH * SCALE) (HEIGHT * SCALE),
             FillStyle ''white'', DrawScreen SCALE, RequestAnimationFrame r]"
  by (simp add: frame_effects_def)

lemma mainloop_Returned:
  assumes "mainloop w h = Returned h'"
  shows "log h' = log h @ frame_effects (next_frame_id h)"
    and "currentRom h' = currentRom h"
    and "anim_frame h' = next_frame_id h"
    and "next_frame_id h' = next_frame_id h + 1"
    and "pending_frames h' = pending_frames h @ [next_frame_id h]"
proof -
  from assms obtain h1 where t: "ticks w 0 h = Returned h1"
    by (cases "ticks w 0 h") (auto simp: mainloop_def)
  with assms obtain h2 where c2: "call TickTimers (wasm_tick_timers w) h1 = Returned h2"
    by (cases "call TickTimers (wasm_tick_timers w) h1") (auto simp: mainloop_def)
  define h3 where
    "h3 = emit (FillStyle ''white'')
            (emit (FillRect 0 0 (WIDTH * SCALE) (HEIGHT * SCALE)) (emit (FillStyle ''black'') h2))"
  from assms t c2 obtain h4 where c4: "call (DrawScreen SCALE) (wasm_draw_screen w SCALE) h3 = Returned h4"
    by (cases "call (DrawScreen SCALE) (wasm_draw_screen w SCALE) h3") (auto simp: mainloop_def h3_def)
  from assms t c2 c4 have h': "h' = (snd (requestAnimationFrame h4))\<lparr>anim_frame := fst (requestAnimationFrame h4)\<rparr>"
    by (auto simp: mainloop_def h3_def split: prod.splits)
  note f1 = ticks_Returned [OF t] and f2 = call_Returned [OF c2] and f4 = call_Returned [OF c4]
  have s3: "log h3 = log h2 @ [FillStyle ''black'', FillRect 0 0 (WIDTH * SCALE) (HEIGHT * SCALE), FillStyle ''white'']"
    "same_vars h2 h3"
    by (simp_all add: h3_def emit_def same_vars_def)
  from f1 f2 s3 f4 have sv: "same_vars h h4"
    by (blast intro: same_vars_trans)
  from f1 f2 s3 f4 have l4: "log h4 = log h @ replicate TICKS_PER_FRAME Tick @
      [TickTimers, FillStyle ''black'', FillRect 0 0 (WIDTH * SCALE) (HEIGHT * SCALE),
       FillStyle ''white'', DrawScreen SCALE]"
    by simp
  from h' l4 sv show "log h' = log h @ frame_effects (next_frame_id h)"
    by (simp add: requestAnimationFrame_def Let_def emit_def frame_effects_def same_vars_def)
  from h' sv show "currentRom h' = currentRom h" "anim_frame h' = next_frame_id h"
    "next_frame_id h' = next_frame_id h + 1" "pending_frames h' = pending_frames h @ [next_frame_id h]"
    by (simp_all add: requestAnimationFrame_def Let_def emit_def same_vars_def)
qed

lemma mainloop_Threw:
  assumes "mainloop w h = Threw x h'"
  shows "\<exists>n. 0 < n \<and> n < length (frame_effects r) \<and> log h' = log h @ take n (frame_effects r)"
    and "same_vars h h'"
proof -
  have both: "(\<exists>n. 0 < n \<and> n < length (frame_effects r) \<and> log h' = log h @ take n (frame_effects r)) \<and> same_vars h h'"
  proof (cases "ticks w 0 h")
    case (Threw y h1)
    with assms have "h1 = h'" by (simp add: mainloop_def)
    with ticks_Threw [OF Threw] obtain n where
      n: "0 < n" "n \<le> TICKS_PER_FRAME" "log h' = log h @ replicate n Tick" and s: "same_vars h h'"
      by auto
    from n have "n < length (frame_effects r)" by (simp add: frame_effects_def)
    with n s show ?thesis by (metis take_frame_ticks)
  next
    case (Returned h1)
    note f1 = ticks_Returned [OF Returned]
    show ?thesis
    proof (cases "call TickTimers (wasm_tick_timers w) h1")
      case (Threw y h2)
      with assms Returned have "h2 = h'" by (simp add: mainloop_def)
      with call_Threw [OF Threw] f1 take_frame_more [of 1 r]
      have "log h' = log h @ take (TICKS_PER_FRAME + 1) (frame_effects r)"
        and "same_vars h h'"
        by (auto intro: same_vars_trans)
      moreover have "TICKS_PER_FRAME + 1 < length (frame_effects r)" by (simp add: frame_effects_def)
      ultimately show ?thesis by (metis add_gr_0 zero_less_one)
    next
      case c2: (Returned h2)
      note f2 = call_Returned [OF c2]
      define h3 where
        "h3 = emit (FillStyle ''white'')
                (emit (FillRect 0 0 (WIDTH * SCALE) (HEIGHT * SCALE)) (emit (FillStyle ''black'') h2))"
      have s3: "log h3 = log h2 @ [FillStyle ''black'', FillRect 0 0 (WIDTH * SCALE) (HEIGHT * SCALE), FillStyle ''white'']"
        "same_vars h2 h3"
        by (simp_all add: h3_def emit_def same_vars_def)
      from assms Returned c2 obtain y where c4: "call (DrawScreen SCALE) (wasm_draw_screen w SCALE) h3 = Threw y h'"
        by (cases "call (DrawScreen SCALE) (wasm_draw_screen w SCALE) h3")
           (auto simp: mainloop_def h3_def split: prod.splits)
      from call_Threw [OF c4] f1 f2 s3 take_frame_more [of 5 r]
      have "log h' = log h @ take (TICKS_PER_FRAME + 5) (frame_effects r)"
        and "same_vars h h'"
        by (auto intro: same_vars_trans)
      moreover have "TICKS_PER_FRAME + 5 < length (frame_effects r)" by (simp add: frame_effects_def)
      ultimately show ?thesis by (metis add_gr_0 zero_less_numeral)
    qed
  qed
  from both show "\<exists>n. 0 < n \<and> n < length (frame_effects r) \<and> log h' = log h @ take n (frame_effects r)"
    and "same_vars h h'" by blast+
qed

lemma restart_Returned:
  assumes "restart_click w h = Returned h'"
  shows "log h' = log h @ [CancelAnimationFrame (anim_frame h), Reset, LoadGame (currentRom h)]
                    @ frame_effects (next_frame_id h)
       \<and> currentRom h' = currentRom h \<and> anim_frame h' = next_frame_id h
       \<and> next_frame_id h' = next_frame_id h + 1
       \<and> pending_frames h' = removeAll (anim_frame h) (pending_frames h) @ [next_frame_id h]"
proof -
  define h1 where "h1 = cancelAnimationFrame (anim_frame h) h"
  have s1: "log h1 = log h @ [CancelAnimationFrame (anim_frame h)]" "currentRom h1 = currentRom h"
    "next_frame_id h1 = next_frame_id h" "pending_frames h1 = removeAll (anim_frame h) (pending_frames h)"
    by (simp_all add: h1_def cancelAnimationFrame_def emit_def)
  from assms obtain h2 where c2: "call Reset (wasm_reset w) h1 = Returned h2"
    by (cases "call Reset (wasm_reset w) h1") (auto simp: restart_click_def h1_def)
  from assms c2 obtain h3 where
    c3: "call (LoadGame (currentRom h2)) (wasm_load_game w (currentRom h2)) h2 = Returned h3"
    by (cases "call (LoadGame (currentRom h2)) (wasm_load_game w (currentRom h2)) h2")
       (auto simp: restart_click_def h1_def)
  from assms c2 c3 have m: "mainloop w h3 = Returned h'"
    by (simp add: restart_click_def h1_def)
  from call_Returned [OF c2] call_Returned [OF c3] s1 mainloop_Returned [OF m]
  show ?thesis by (simp add: same_vars_def)
qed

lemma on_buffer_Returned:
  assumes "on_buffer w buffer h = Returned h'"
  shows "log h' = log h @ [Reset, LoadGame (JsUint8Array buffer)] @ frame_effects (next_frame_id h)
       \<and> currentRom h' = JsUint8Array buffer \<and> anim_frame h' = next_frame_id h
       \<and> next_frame_id h' = next_frame_id h + 1
       \<and> pending_frames h' = pending_frames h @ [next_frame_id h]"
proof -
  define h1 where "h1 = h\<lparr>currentRom := JsUint8Array buffer\<rparr>"
  from assms obtain h2 where c2: "call Reset (wasm_reset w) h1 = Returned h2"
    by (cases "call Reset (wasm_reset w) h1") (auto simp: on_buffer_def h1_def)
  from assms c2 obtain h3 where
    c3: "call (LoadGame (JsUint8Array buffer)) (wasm_load_game w (JsUint8Array buffer)) h2 = Returned h3"
    by (cases "call (LoadGame (JsUint8Array buffer)) (wasm_load_game w (JsUint8Array buffer)) h2")
       (auto simp: on_buffer_def h1_def)
  from assms c2 c3 have m: "mainloop w h3 = Returned h'"
    by (simp add: on_buffer_def h1_def)
  from call_Returned [OF c2] call_Returned [OF c3] mainloop_Returned [OF m]
  show ?thesis by (simp add: same_vars_def h1_def)
qed

lemma call_state:
  "log (state_of (call e m h)) = log h @ [e]" "currentRom (state_of (call e m h)) = currentRom h"
  "next_frame_id (state_of (call e m h)) = next_frame_id h"
  by (auto simp: call_def emit_def split: prod.splits option.splits)

lemma mainloop_log:
  "\<exists>es. log (state_of (mainloop w h)) = log h @ es \<and> prefix es (frame_effects (next_frame_id h))"
proof (cases "mainloop w h")
  case (Returned h')
  with mainloop_Returned(1) [OF Returned] show ?thesis by simp
next
  case (Threw x h')
  from mainloop_Threw(1) [OF Threw, of "next_frame_id h"] Threw show ?thesis
    by (auto simp: take_is_prefix)
qed

lemma mainloop_currentRom: "currentRom (state_of (mainloop w h)) = currentRom h"
proof (cases "mainloop w h")
  case (Returned h')
  with mainloop_Returned(2) [OF Returned] show ?thesis by simp
next
  case (Threw x h')
  from mainloop_Threw(2) [OF Threw] Threw show ?thesis
    by (simp add: same_vars_def)
qed

lemma reload_log:
  fixes w :: "'vm emu_wasm" and h :: "'vm host" and rom :: js_value
  assumes "currentRom h = rom"
  defines "c \<equiv> and_then (call Reset (wasm_reset w) h) (\<lambda>h.
                and_then (call (LoadGame rom) (wasm_load_game w rom) h) (\<lambda>h. mainloop w h))"
  shows "\<exists>es. log (state_of c) = log h @ es \<and>
              prefix es ([Reset, LoadGame rom] @ frame_effects (next_frame_id h))"
    and "currentRom (state_of c) = rom"
proof -
  have "(\<exists>es. log (state_of c) = log h @ es \<and>
              prefix es ([Reset, LoadGame rom] @ frame_effects (next_frame_id h))) \<and>
        currentRom (state_of c) = rom"
  proof (cases "call Reset (wasm_reset w) h")
    case (Threw x h1)
    with call_state [of Reset "wasm_reset w" h] assms(1) show ?thesis
      by (simp add: c_def)
  next
    case (Returned h1)
    with call_state [of Reset "wasm_reset w" h] assms(1)
    have s1: "log h1 = log h @ [Reset]" "currentRom h1 = rom" "next_frame_id h1 = next_frame_id h"
      by simp_all
    show ?thesis
    proof (cases "call (LoadGame rom) (wasm_load_game w rom) h1")
      case (Threw x h2)
      with call_state [of "LoadGame rom" "wasm_load_game w rom" h1] s1 Returned show ?thesis
        by (simp add: c_def)
    next
      case r2: (Returned h2)
      with call_state [of "LoadGame rom" "wasm_load_game w rom" h1] s1
      have s2: "log h2 = log h @ [Reset, LoadGame rom]" "currentRom h2 = rom"
        "next_frame_id h2 = next_frame_id h"
        by simp_all
      from Returned r2 have c: "c = mainloop w h2" by (simp add: c_def)
      from mainloop_log [of w h2] mainloop_currentRom [of w h2] s2 show ?thesis
        unfolding c by auto
    qed
  qed
  then show "\<exists>es. log (state_of c) = log h @ es \<and>
              prefix es ([Reset, LoadGame rom] @ frame_effects (next_frame_id h))"
    and "currentRom (state_of c) = rom" by blast+
qed

lemma loads_follow_any: "loads_follow None es \<Longrightarrow> loads_follow p es"
  by (cases es) auto

lemma loads_follow_append:
  "loads_follow p (xs @ ys) \<longleftrightarrow> loads_follow p xs \<and> loads_follow (if xs = [] then p else Some (last xs)) ys"
  by (induction xs arbitrary: p) auto

lemma loads_after_reset_append:
  "loads_after_reset xs \<Longrightarrow> loads_after_reset ys \<Longrightarrow> loads_after_reset (xs @ ys)"
  by (simp add: loads_after_reset_def loads_follow_append loads_follow_any)

lemma loads_after_reset_prefix:
  "prefix xs ys \<Longrightarrow> loads_after_reset ys \<Longrightarrow> loads_after_reset xs"
  by (auto simp: loads_after_reset_def loads_follow_append prefix_def)

lemma vm_calls_append: "vm_calls (xs @ ys) = vm_calls xs @ vm_calls ys"
  by (simp add: vm_calls_def)

lemma vm_calls_prefix: "prefix xs ys \<Longrightarrow> prefix (vm_calls xs) (vm_calls ys)"
  by (auto simp: vm_calls_def prefix_def)

lemma frame_loads: "loads_after_reset (vm_calls (frame_effects r))"
  by (simp add: loads_after_reset_def vm_calls_def frame_effects_def TICKS_PER_FRAME_def eval_nat_numeral)

lemma reload_loads: "loads_after_reset (vm_calls ([Reset, LoadGame rom] @ frame_effects r))"
  by (simp add: loads_after_reset_def vm_calls_def frame_effects_def TICKS_PER_FRAME_def eval_nat_numeral)

lemma restart_as_reload:
  "restart_click w h =
     (and_then (call Reset (wasm_reset w) (cancelAnimationFrame (anim_frame h) h)) (\<lambda>h'.
      and_then (call (LoadGame (currentRom h)) (wasm_load_game w (currentRom h)) h') (\<lambda>h'. mainloop w h')))"
proof -
  define h1 where "h1 = cancelAnimationFrame (anim_frame h) h"
  have r: "currentRom h1 = currentRom h" by (simp add: h1_def cancelAnimationFrame_def emit_def)
  show ?thesis
  proof (cases "call Reset (wasm_reset w) h1")
    case (Threw x h2)
    then show ?thesis by (simp add: restart_click_def h1_def)
  next
    case (Returned h2)
    with call_state(2) [of Reset "wasm_reset w" h1] r have "currentRom h2 = currentRom h" by simp
    with Returned show ?thesis by (simp add: restart_click_def h1_def)
  qed
qed

lemma handle_log:
  "\<exists>es. log (state_of (handle w e h)) = log h @ es \<and> loads_after_reset (vm_calls es)"
proof (cases e)
  case (KeyDown evt)
  then show ?thesis
    by (simp add: keydown_def call_state loads_after_reset_def vm_calls_def)
next
  case (KeyUp evt)
  then show ?thesis
    by (simp add: keyup_def call_state loads_after_reset_def vm_calls_def)
next
  case StartClick
  then show ?thesis
    by (simp add: start_click_def requestAnimationFrame_def Let_def emit_def
        loads_after_reset_def vm_calls_def)
next
  case StopClick
  then show ?thesis
    by (simp add: stop_click_def cancelAnimationFrame_def emit_def loads_after_reset_def vm_calls_def)
next
  case RestartClick
  define h1 where "h1 = cancelAnimationFrame (anim_frame h) h"
  have s1: "log h1 = log h @ [CancelAnimationFrame (anim_frame h)]" "currentRom h1 = currentRom h"
    by (simp_all add: h1_def cancelAnimationFrame_def emit_def)
  from reload_log(1) [OF s1(2), of w] obtain es where
    es: "log (state_of (restart_click w h)) = log h1 @ es"
      "prefix es ([Reset, LoadGame (currentRom h)] @ frame_effects (next_frame_id h1))"
    unfolding restart_as_reload [of w h] h1_def by blast
  from es(2) have "loads_after_reset (vm_calls es)"
    by (rule loads_after_reset_prefix [OF vm_calls_prefix reload_loads])
  then have "loads_after_reset (vm_calls (CancelAnimationFrame (anim_frame h) # es))"
    by (simp add: vm_calls_def)
  with es(1) s1 RestartClick show ?thesis by simp
next
  case (RomsChange v)
  then show ?thesis
    by (simp add: roms_change_def loadRom_def cancelAnimationFrame_def emit_def
        loads_after_reset_def vm_calls_def)
next
  case (AnimationFrame req)
  show ?thesis
  proof (cases "req \<in> set (pending_frames h)")
    case False
    with AnimationFrame show ?thesis
      by (simp add: animation_frame_def loads_after_reset_def vm_calls_def)
  next
    case True
    define h1 where "h1 = h\<lparr>pending_frames := removeAll req (pending_frames h)\<rparr>"
    from mainloop_log [of w h1] obtain es where
      es: "log (state_of (mainloop w h1)) = log h1 @ es" "prefix es (frame_effects (next_frame_id h1))"
      by blast
    from es(2) have "loads_after_reset (vm_calls es)"
      by (rule loads_after_reset_prefix [OF vm_calls_prefix frame_loads])
    with es(1) True AnimationFrame show ?thesis
      by (auto simp: animation_frame_def h1_def)
  qed
next
  case (FetchSettled outcome)
  have err: "\<exists>es. log (state_of (on_error x h')) = log h' @ es \<and> vm_calls es = []" for x and h' :: "'a host"
    by (simp add: on_error_def emit_def vm_calls_def)
  show ?thesis
  proof (cases "case outcome of NetworkError e \<Rightarrow> Inl e | Response r \<Rightarrow> on_response r")
    case (Inl x)
    with FetchSettled show ?thesis
      by (simp add: loadRom_settled_def on_error_def emit_def vm_calls_def loads_after_reset_def)
  next
    case (Inr buffer)
    define h1 where "h1 = h\<lparr>currentRom := JsUint8Array buffer\<rparr>"
    have s1: "currentRom h1 = JsUint8Array buffer" "log h1 = log h" by (simp_all add: h1_def)
    have ob: "on_buffer w buffer h =
        and_then (call Reset (wasm_reset w) h1) (\<lambda>h'.
        and_then (call (LoadGame (JsUint8Array buffer)) (wasm_load_game w (JsUint8Array buffer)) h')
          (\<lambda>h'. mainloop w h'))"
      by (simp add: on_buffer_def h1_def Let_def)
    from reload_log(1) [OF s1(1), of w] obtain es where
      es: "log (state_of (on_buffer w buffer h)) = log h @ es"
        "prefix es ([Reset, LoadGame (JsUint8Array buffer)] @ frame_effects (next_frame_id h1))"
      unfolding ob s1 by blast
    from es(2) have l: "loads_after_reset (vm_calls es)"
      by (rule loads_after_reset_prefix [OF vm_calls_prefix reload_loads])
    show ?thesis
    proof (cases "on_buffer w buffer h")
      case (Returned h2)
      with Inr FetchSettled es l show ?thesis by (auto simp: loadRom_settled_def)
    next
      case (Threw x h2)
      with es have "log h2 = log h @ es" by simp
      moreover have "log (state_of (on_error x h2)) = log h2 @ [ConsoleError (''Failed to load ROM: '' @ x)]"
        by (simp add: on_error_def emit_def)
      moreover from l have "loads_after_reset (vm_calls (es @ [ConsoleError (''Failed to load ROM: '' @ x)]))"
        by (simp add: vm_calls_def)
      ultimately show ?thesis using Inr FetchSettled Threw
        by (auto simp: loadRom_settled_def)
    qed
  qed
qed

lemma handle_currentRom:
  "\<not> delivers_rom e \<Longrightarrow> currentRom (state_of (handle w e h)) = currentRom h"
proof (cases e)
  case RestartClick
  have "currentRom (cancelAnimationFrame (anim_frame h) h) = currentRom h"
    by (simp add: cancelAnimationFrame_def emit_def)
  from reload_log(2) [OF this, of w] RestartClick show ?thesis
    by (simp add: restart_as_reload)
next
  case (AnimationFrame req)
  then show ?thesis
    by (simp add: animation_frame_def mainloop_currentRom)
next
  case (FetchSettled outcome)
  assume "\<not> delivers_rom e"
  with FetchSettled show ?thesis
    by (cases outcome)
       (auto simp: loadRom_settled_def on_error_def emit_def split: sum.splits)
qed (simp_all add: keydown_def keyup_def call_state start_click_def stop_click_def roms_change_def
      loadRom_def requestAnimationFrame_def cancelAnimationFrame_def emit_def Let_def)

lemma run_events_currentRom:
  "filter delivers_rom evs = [] \<Longrightarrow> currentRom (run_events w evs h) = currentRom h"
proof (induction evs arbitrary: h)
  case Nil
  show ?case by simp
next
  case (Cons e evs)
  from Cons.prems have e: "\<not> delivers_rom e" and r: "filter delivers_rom evs = []"
    by (auto split: if_splits)
  from Cons.IH [OF r] handle_currentRom [OF e] show ?case by simp
qed

lemma run_events_log: "\<exists>es. log (run_events w evs h) = log h @ es"
proof (induction evs arbitrary: h)
  case Nil
  show ?case by simp
next
  case (Cons e evs)
  from handle_log [of w e h] obtain es1 where "log (state_of (handle w e h)) = log h @ es1" by blast
  moreover from Cons.IH [of "state_of (handle w e h)"] obtain es2
    where "log (run_events w evs (state_of (handle w e h))) = log (state_of (handle w e h)) @ es2" by blast
  ultimately show ?case by simp
qed

lemma run_events_loads:
  "loads_after_reset (vm_calls (log h)) \<Longrightarrow> loads_after_reset (vm_calls (log (run_events w evs h)))"
proof (induction evs arbitrary: h)
  case Nil
  then show ?case by simp
next
  case (Cons e evs)
  from handle_log [of w e h] obtain es where
    es: "log (state_of (handle w e h)) = log h @ es" "loads_after_reset (vm_calls es)" by blast
  with Cons.prems have "loads_after_reset (vm_calls (log (state_of (handle w e h))))"
    by (simp add: vm_calls_append loads_after_reset_append)
  from Cons.IH [OF this] show ?case by simp
qed

lemma vm_calls_frame:
  "vm_calls (frame_effects r) = [Tick, Tick, Tick, Tick, Tick, TickTimers, DrawScreen 12]"
  by (simp add: vm_calls_def frame_effects_def TICKS_PER_FRAME_def SCALE_def eval_nat_numeral)

lemma frame_effects_list:
  "frame_effects r =
     [Tick, Tick, Tick, Tick, Tick, TickTimers, FillStyle ''black'', FillRect 0 0 768 384,
      FillStyle ''white'', DrawScreen 12, RequestAnimationFrame r]"
  by (simp add: frame_effects_def TICKS_PER_FRAME_def WIDTH_def HEIGHT_def SCALE_def eval_nat_numeral)

lemma counting_emu_sel:
  "wasm_reset counting_emu = (\<lambda>n. (None, 0))"
  "wasm_load_game counting_emu (JsUint8Array bs) n =
     (if length bs \<le> 3584 then (None, n) else (Some ''RuntimeError: unreachable'', n))"
  "wasm_load_game counting_emu JsUndefined n =
     (Some ''TypeError: Cannot read properties of undefined'', n)"
  "wasm_tick counting_emu = (\<lambda>n. (None, n + 1))"
  "wasm_tick_timers counting_emu = (\<lambda>n. (None, n))"
  "wasm_draw_screen counting_emu s = (\<lambda>n. (None, n))"
  "wasm_keypress counting_emu v p = (\<lambda>n. (None, n))"
  by (simp_all add: counting_emu_def)

lemma counting_mainloop:
  "mainloop counting_emu h =
     Returned (h\<lparr>chip8 := chip8 h + 5, anim_frame := next_frame_id h,
                next_frame_id := next_frame_id h + 1,
                pending_frames := pending_frames h @ [next_frame_id h],
                log := log h @ frame_effects (next_frame_id h)\<rparr>)"
  by (simp add: mainloop_def ticks.simps TICKS_PER_FRAME_def call_def counting_emu_sel emit_def
      requestAnimationFrame_def frame_effects_list WIDTH_def HEIGHT_def SCALE_def Let_def)

lemma load_failure_stops_loadRom:
  assumes "wasm_reset w (chip8 h) = (None, vm1)"
    and "wasm_load_game w (JsUint8Array bytes) vm1 = (Some err, vm2)"
    and "ok r" and "arrayBuffer r = Inr bytes"
  shows "loadRom_settled w (Response r) h =
     Returned (h\<lparr>chip8 := vm2, currentRom := JsUint8Array bytes,
                log := log h @ [Reset, LoadGame (JsUint8Array bytes),
                                ConsoleError (''Failed to load ROM: '' @ err)]\<rparr>)"
  using assms
  by (simp add: loadRom_settled_def on_response_def on_buffer_def on_error_def call_def emit_def Let_def)

lemma load_failure_stops_restart:
  assumes "wasm_reset w (chip8 h) = (None, vm1)"
    and "wasm_load_game w (currentRom h) vm1 = (Some err, vm2)"
  shows "restart_click w h =
     Threw err (h\<lparr>chip8 := vm2, pending_frames := removeAll (anim_frame h) (pending_frames h),
                 log := log h @ [CancelAnimationFrame (anim_frame h), Reset, LoadGame (currentRom h)]\<rparr>)"
  using assms
  by (simp add: restart_click_def cancelAnimationFrame_def call_def emit_def)

lemma run_loads: "loads_after_reset (vm_calls (log (state_of (run vm))))"
  by (simp add: run_def loadRom_def emit_def loads_after_reset_def vm_calls_def)


subsection \<open>Key events\<close>

text \<open>
  The \<open>keydown\<close> and \<open>keyup\<close> listeners make one call each, \<open>chip8.keypress\<close>, with the
  browser's event object and the direction. What becomes of the event, and so which key
  flag changes, is decided behind that method.
\<close>

lemma key_listeners_pass_event:
  "state_of (keydown w evt h) =
     h\<lparr>chip8 := snd (wasm_keypress w (JsEvent evt) True (chip8 h)),
       log := log h @ [Keypress (JsEvent evt) True]\<rparr> \<and>
   state_of (keyup w evt h) =
     h\<lparr>chip8 := snd (wasm_keypress w (JsEvent evt) False (chip8 h)),
       log := log h @ [Keypress (JsEvent evt) False]\<rparr>"
  by (simp add: keydown_def keyup_def call_def emit_def split: prod.splits option.splits)

subsection \<open>The frame loop\<close>

text \<open>
  C2. In every pass of \<open>mainloop\<close>, and so in every animation frame, the calls into the
  emulator are five \<open>tick\<close> calls, then one \<open>tick_timers\<close>, then one \<open>draw_screen\<close>, in that
  order. If a call throws the pass ends there, so the calls made are always an initial
  part of that sequence; if the pass returns they are all of it.
\<close>

theorem mainloop_call_order:
  "(\<exists>n. vm_calls (log (state_of (mainloop w h))) =
          vm_calls (log h) @ take n [Tick, Tick, Tick, Tick, Tick, TickTimers, DrawScreen 12]) \<and>
   (\<exists>n. vm_calls (log (state_of (animation_frame w req h))) =
          vm_calls (log h) @ take n [Tick, Tick, Tick, Tick, Tick, TickTimers, DrawScreen 12]) \<and>
   (mainloop w h = Returned h' \<longrightarrow>
      vm_calls (log h') =
        vm_calls (log h) @ [Tick, Tick, Tick, Tick, Tick, TickTimers, DrawScreen 12])"
proof (intro conjI)
  have part: "\<exists>n. vm_calls (log (state_of (mainloop w k))) =
          vm_calls (log k) @ take n [Tick, Tick, Tick, Tick, Tick, TickTimers, DrawScreen 12]"
    for k :: "'a host"
  proof -
    from mainloop_log [of w k] obtain es where
      es: "log (state_of (mainloop w k)) = log k @ es" "prefix es (frame_effects (next_frame_id k))"
      by blast
    from vm_calls_prefix [OF es(2)]
    have "vm_calls es =
        take (length (vm_calls es)) [Tick, Tick, Tick, Tick, Tick, TickTimers, DrawScreen 12]"
      unfolding vm_calls_frame by (auto simp: prefix_def)
    with es(1) show ?thesis by (metis vm_calls_append)
  qed
  from part [of h] show "\<exists>n. vm_calls (log (state_of (mainloop w h))) =
          vm_calls (log h) @ take n [Tick, Tick, Tick, Tick, Tick, TickTimers, DrawScreen 12]" .
  show "\<exists>n. vm_calls (log (state_of (animation_frame w req h))) =
          vm_calls (log h) @ take n [Tick, Tick, Tick, Tick, Tick, TickTimers, DrawScreen 12]"
  proof (cases "req \<in> set (pending_frames h)")
    case False
    then have "vm_calls (log (state_of (animation_frame w req h))) =
        vm_calls (log h) @ take 0 [Tick, Tick, Tick, Tick, Tick, TickTimers, DrawScreen 12]"
      by (simp add: animation_frame_def)
    then show ?thesis ..
  next
    case True
    with part [of "h\<lparr>pending_frames := removeAll req (pending_frames h)\<rparr>"] show ?thesis
      by (simp add: animation_frame_def)
  qed
  show "mainloop w h = Returned h' \<longrightarrow>
      vm_calls (log h') =
        vm_calls (log h) @ [Tick, Tick, Tick, Tick, Tick, TickTimers, DrawScreen 12]"
  proof
    assume "mainloop w h = Returned h'"
    from mainloop_Returned(1) [OF this] show
      "vm_calls (log h') =
         vm_calls (log h) @ [Tick, Tick, Tick, Tick, Tick, TickTimers, DrawScreen 12]"
      by (simp add: vm_calls_append vm_calls_frame)
  qed
qed

theorem mainloop_call_order_witness:
  "mainloop counting_emu example_host = Returned (state_of (mainloop counting_emu example_host)) \<and>
   vm_calls (log (state_of (mainloop counting_emu example_host))) =
     [Tick, Tick, Tick, Tick, Tick, TickTimers, DrawScreen 12]"
proof -
  have ret: "mainloop counting_emu example_host =
      Returned (state_of (mainloop counting_emu example_host))"
    by (simp add: counting_mainloop)
  have "vm_calls (log example_host) = []"
    by (simp add: example_host_def run_def loadRom_def emit_def vm_calls_def)
  with mainloop_call_order [of counting_emu example_host 0
      "state_of (mainloop counting_emu example_host)"] ret
  show ?thesis by simp
qed

subsection \<open>Restart\<close>

text \<open>
  C3. In every run of the page each \<open>load_game\<close> call comes directly after a \<open>reset\<close>
  call. Once a ROM has been loaded (the second \<open>then\<close> of \<open>loadRom\<close> returned), and
  whatever events came since other than a fetch delivering another ROM, a click on restart that
  returns has cancelled the pending frame, called \<open>reset\<close>, called \<open>load_game\<close> with the
  bytes of that ROM, run one pass of the loop and requested the next frame.
\<close>

theorem restart_resets_then_reloads:
  "loads_after_reset (vm_calls (log (run_events w evs (state_of (run vm))))) \<and>
   (on_buffer w buffer h0 = Returned h1 \<longrightarrow>
    filter delivers_rom evs' = [] \<longrightarrow>
    restart_click w (run_events w evs' h1) = Returned h3 \<longrightarrow>
      (\<exists>first between.
         log h1 = log h0 @ [Reset, LoadGame (JsUint8Array buffer)] @ first \<and>
         log h3 = log h1 @ between @
           [CancelAnimationFrame (anim_frame (run_events w evs' h1)), Reset,
            LoadGame (JsUint8Array buffer)] @
           frame_effects (next_frame_id (run_events w evs' h1))) \<and>
      currentRom h3 = JsUint8Array buffer \<and>
      anim_frame h3 \<in> set (pending_frames h3))"
proof (intro conjI impI)
  show "loads_after_reset (vm_calls (log (run_events w evs (state_of (run vm)))))"
    by (rule run_events_loads [OF run_loads])
next
  assume ob: "on_buffer w buffer h0 = Returned h1"
    and nf: "filter delivers_rom evs' = []"
    and rc: "restart_click w (run_events w evs' h1) = Returned h3"
  define h2 where "h2 = run_events w evs' h1"
  note l1 = on_buffer_Returned [OF ob]
  from run_events_currentRom [OF nf, of w h1] l1 have c2: "currentRom h2 = JsUint8Array buffer"
    by (simp add: h2_def)
  from run_events_log [of w evs' h1] obtain between where b: "log h2 = log h1 @ between"
    unfolding h2_def by blast
  note l3 = restart_Returned [OF rc [folded h2_def]]
  from l1 b l3 c2 show "\<exists>first between.
         log h1 = log h0 @ [Reset, LoadGame (JsUint8Array buffer)] @ first \<and>
         log h3 = log h1 @ between @
           [CancelAnimationFrame (anim_frame (run_events w evs' h1)), Reset,
            LoadGame (JsUint8Array buffer)] @
           frame_effects (next_frame_id (run_events w evs' h1))"
    unfolding h2_def [symmetric] by auto
  from l3 c2 show "currentRom h3 = JsUint8Array buffer" by simp
  from l3 show "anim_frame h3 \<in> set (pending_frames h3)" by simp
qed

theorem restart_resets_then_reloads_witness:
  "on_buffer counting_emu [0x12, 0x00] example_host =
     Returned (state_of (on_buffer counting_emu [0x12, 0x00] example_host)) \<and>
   restart_click counting_emu
     (run_events counting_emu [AnimationFrame 1, KeyDown (KeyboardEvent ''1'' ''Digit1''), StopClick]
        (state_of (on_buffer counting_emu [0x12, 0x00] example_host))) =
   Returned
     \<lparr>chip8 = 5, currentRom = JsUint8Array [0x12, 0x00], anim_frame = 3, next_frame_id = 4,
      pending_frames = [3],
      log = [Fetch ''roms/15PUZZLE'', Reset, LoadGame (JsUint8Array [0x12, 0x00])] @
            frame_effects 1 @ frame_effects 2 @
            [Keypress (JsEvent (KeyboardEvent ''1'' ''Digit1'')) True, CancelAnimationFrame 2,
             CancelAnimationFrame 2, Reset, LoadGame (JsUint8Array [0x12, 0x00])] @
            frame_effects 3\<rparr>"
proof -
  let ?h1 = "state_of (on_buffer counting_emu [0x12, 0x00] example_host)"
  let ?evs = "[AnimationFrame 1, KeyDown (KeyboardEvent ''1'' ''Digit1''), StopClick]"
  have ob: "on_buffer counting_emu [0x12, 0x00] example_host = Returned ?h1"
    by (simp add: on_buffer_def counting_mainloop call_def counting_emu_sel Let_def)
  have nf: "filter delivers_rom ?evs = []" by simp
  have ev: "restart_click counting_emu (run_events counting_emu ?evs ?h1) =
     Returned
     \<lparr>chip8 = 5, currentRom = JsUint8Array [0x12, 0x00], anim_frame = 3, next_frame_id = 4,
      pending_frames = [3],
      log = [Fetch ''roms/15PUZZLE'', Reset, LoadGame (JsUint8Array [0x12, 0x00])] @
            frame_effects 1 @ frame_effects 2 @
            [Keypress (JsEvent (KeyboardEvent ''1'' ''Digit1'')) True, CancelAnimationFrame 2,
             CancelAnimationFrame 2, Reset, LoadGame (JsUint8Array [0x12, 0x00])] @
            frame_effects 3\<rparr>"
    by (simp add: example_host_def run_def loadRom_def emit_def ROMS_def on_buffer_def
        counting_mainloop call_def counting_emu_sel Let_def restart_click_def
        cancelAnimationFrame_def animation_frame_def keydown_def stop_click_def
        numeral_2_eq_2 numeral_3_eq_3)
  have rc: "restart_click counting_emu (run_events counting_emu ?evs ?h1) =
      Returned (state_of (restart_click counting_emu (run_events counting_emu ?evs ?h1)))"
    unfolding ev by simp
  from restart_resets_then_reloads [of counting_emu "[]" 0 "[0x12, 0x00]" example_host ?h1 ?evs
      "state_of (restart_click counting_emu (run_events counting_emu ?evs ?h1))"] ob nf rc
  have "currentRom (state_of (restart_click counting_emu (run_events counting_emu ?evs ?h1))) =
      JsUint8Array [0x12, 0x00]"
    by blast
  with ob rc ev show ?thesis by simp
qed

subsection \<open>A failed fetch\<close>

text \<open>
  C10. \<open>loadRom\<close> itself only starts the fetch. If the fetch then fails, by a network error
  or by a response that is not ok, the chain logs one line to the console and does
  nothing else: no \<open>reset\<close>, no \<open>load_game\<close>, no pass of the loop; the emulator, the
  current ROM and the requested frames are those from before.
\<close>

theorem fetch_failure_only_logs:
  "loadRom rom h = Returned (h\<lparr>log := log h @ [Fetch (''roms/'' @ rom)]\<rparr>) \<and>
   (fetch_failed outcome \<longrightarrow>
      loadRom_settled w outcome h =
        Returned (h\<lparr>log := log h @
          [ConsoleError (''Failed to load ROM: '' @ rejection_text outcome)]\<rparr>) \<and>
      vm_calls (log (state_of (loadRom_settled w outcome h))) = vm_calls (log h))"
  by (cases outcome)
     (simp_all add: loadRom_def loadRom_settled_def on_response_def on_error_def emit_def
        vm_calls_def)

theorem fetch_failure_only_logs_witness:
  "fetch_failed
     (Response \<lparr>ok = False, status = 404, statusText = ''Not Found'', arrayBuffer = Inr [0x12, 0x00]\<rparr>) \<and>
   loadRom_settled counting_emu
     (Response \<lparr>ok = False, status = 404, statusText = ''Not Found'', arrayBuffer = Inr [0x12, 0x00]\<rparr>)
     example_host =
   Returned (example_host\<lparr>log := log example_host @
     [ConsoleError ''Failed to load ROM: Error: Failed to load ROM: 404 Not Found'']\<rparr>) \<and>
   fetch_failed (NetworkError ''TypeError: Failed to fetch'') \<and>
   loadRom_settled counting_emu (NetworkError ''TypeError: Failed to fetch'') example_host =
   Returned (example_host\<lparr>log := log example_host @
     [ConsoleError ''Failed to load ROM: TypeError: Failed to fetch'']\<rparr>)"
  using fetch_failure_only_logs [of "''PONG''" example_host
      "Response \<lparr>ok = False, status = 404, statusText = ''Not Found'', arrayBuffer = Inr [0x12, 0x00]\<rparr>"
      counting_emu]
    fetch_failure_only_logs [of "''PONG''" example_host
      "NetworkError ''TypeError: Failed to fetch''" counting_emu]
  by (simp add: decimal.simps digit_char_def)


section \<open>Properties of the core\<close>

lemma blit_row_fold: "blit_row x y b dc = fold xor_pixel (row_pixels x y b) dc"
proof -
  have "(\<lambda>col dc. if bit b (7 - col) then xor_pixel (pixel_index (x + col) y) dc else dc) =
        (\<lambda>col. if bit b (7 - col) then xor_pixel (pixel_index (x + col) y) else id)"
    by (intro ext) simp
  then show ?thesis
    by (simp add: blit_row_def row_pixels_def fold_map fold_filter comp_def)
qed

lemma blit_rows_fold: "blit_rows x y bs dc = fold xor_pixel (footprint x y bs) dc"
  by (induction bs arbitrary: y dc) (simp_all add: blit_row_fold)

lemma fold_xor_fst: "fst (fold xor_pixel ps (d, c)) = fold flip ps d"
  by (induction ps arbitrary: d c) (simp_all add: xor_pixel_def flip_def)

lemma flip_flip: "flip p (flip p d) = d"
  by (cases "p < length d") (simp_all add: flip_def list_update_beyond)

lemma flip_commute: "flip p (flip q d) = flip q (flip p d)"
  by (cases "p = q") (simp_all add: flip_def list_update_swap)

lemma fold_flip_commute: "fold flip ps (flip p d) = flip p (fold flip ps d)"
proof (induction ps arbitrary: d)
  case Nil
  show ?case by simp
next
  case (Cons q ps)
  have "fold flip (q # ps) (flip p d) = fold flip ps (flip q (flip p d))" by simp
  also have "\<dots> = fold flip ps (flip p (flip q d))" by (simp only: flip_commute [of q p d])
  also have "\<dots> = flip p (fold flip ps (flip q d))" by (rule Cons.IH)
  finally show ?case by simp
qed

lemma fold_flip_twice: "fold flip ps (fold flip ps d) = d"
proof (induction ps arbitrary: d)
  case Nil
  show ?case by simp
next
  case (Cons p ps)
  have "fold flip (p # ps) (fold flip (p # ps) d) = fold flip ps (flip p (fold flip ps (flip p d)))"
    by simp
  also have "\<dots> = fold flip ps (fold flip ps (flip p (flip p d)))"
    by (simp add: fold_flip_commute)
  also have "\<dots> = d" by (simp add: flip_flip Cons.IH)
  finally show ?case .
qed

lemma blit_twice_display: "fst (blit x y sprite (fst (blit x y sprite d))) = d"
  by (simp add: blit_def blit_rows_fold fold_xor_fst fold_flip_twice)

lemma flip_nth_neq: "p \<noteq> q \<Longrightarrow> flip p d ! q = d ! q"
  by (simp add: flip_def)

lemma flip_nth_eq: "p < length d \<Longrightarrow> flip p d ! p = (\<not> d ! p)"
  by (simp add: flip_def)

lemma length_flip: "length (flip p d) = length d"
  by (simp add: flip_def)

lemma length_fold_flip: "length (fold flip ps d) = length d"
  by (induction ps arbitrary: d) (simp_all add: length_flip)

lemma xor_pixel_flip: "xor_pixel p (d, c) = (flip p d, c \<or> d ! p)"
  by (simp add: xor_pixel_def flip_def)

lemma fold_xor_distinct:
  "distinct ps \<Longrightarrow> \<forall>p\<in>set ps. p < length d \<Longrightarrow>
     fold xor_pixel ps (d, c) = (fold flip ps d, c \<or> (\<exists>p\<in>set ps. d ! p))"
proof (induction ps arbitrary: d c)
  case Nil
  show ?case by simp
next
  case (Cons p ps)
  from Cons.prems have d: "distinct ps" and np: "p \<notin> set ps"
    and r: "\<forall>q\<in>set ps. q < length (flip p d)"
    by (simp_all add: length_flip)
  have same: "(\<exists>q\<in>set ps. flip p d ! q) = (\<exists>q\<in>set ps. d ! q)"
    using np by (metis flip_nth_neq)
  have "fold xor_pixel (p # ps) (d, c) = fold xor_pixel ps (flip p d, c \<or> d ! p)"
    by (simp add: xor_pixel_flip)
  also have "\<dots> = (fold flip ps (flip p d), (c \<or> d ! p) \<or> (\<exists>q\<in>set ps. flip p d ! q))"
    by (rule Cons.IH [OF d r])
  finally show ?case using same by auto
qed

lemma fold_flip_nth:
  "distinct ps \<Longrightarrow> p < length d \<Longrightarrow> fold flip ps d ! p = (if p \<in> set ps then \<not> d ! p else d ! p)"
proof (induction ps arbitrary: d)
  case Nil
  show ?case by simp
next
  case (Cons q ps)
  from Cons.prems have d: "distinct ps" and l: "p < length (flip q d)" and nq: "q \<notin> set ps"
    by (simp_all add: length_flip)
  have "fold flip (q # ps) d ! p = fold flip ps (flip q d) ! p" by simp
  also have "\<dots> = (if p \<in> set ps then \<not> flip q d ! p else flip q d ! p)"
    by (rule Cons.IH [OF d l])
  finally show ?case
    using nq Cons.prems(2) by (cases "p = q") (auto simp: flip_nth_neq flip_nth_eq)
qed

lemma pixel_index_bound: "pixel_index a b < 2048"
proof -
  have "a mod 64 < 64" "b mod 32 < 32" by simp_all
  then have "a mod 64 + 64 * (b mod 32) < 2048" by linarith
  then show ?thesis by (simp add: pixel_index_def SCREEN_WIDTH_def SCREEN_HEIGHT_def)
qed

lemma pixel_index_row: "pixel_index a b div 64 = b mod 32"
  by (simp add: pixel_index_def SCREEN_WIDTH_def SCREEN_HEIGHT_def)

lemma pixel_index_col: "pixel_index a b mod 64 = a mod 64"
  by (simp add: pixel_index_def SCREEN_WIDTH_def SCREEN_HEIGHT_def)

lemma add_mod_inj:
  fixes a b x n :: nat
  assumes "a < n" "b < n" "(x + a) mod n = (x + b) mod n"
  shows "a = b"
proof (rule ccontr)
  assume "a \<noteq> b"
  then consider "a < b" | "b < a" by linarith
  then show False
  proof cases
    case 1
    then have "x + a \<le> x + b" by simp
    from mod_eq_dvd_iff_nat [OF this, of n] assms(3) [symmetric] have "n dvd b - a" by simp
    moreover from 1 assms have "0 < b - a" "b - a < n" by simp_all
    ultimately show False using nat_dvd_not_less by blast
  next
    case 2
    then have "x + b \<le> x + a" by simp
    from mod_eq_dvd_iff_nat [OF this, of n] assms(3) have "n dvd a - b" by simp
    moreover from 2 assms have "0 < a - b" "a - b < n" by simp_all
    ultimately show False using nat_dvd_not_less by blast
  qed
qed

lemma col_inj: "c < 8 \<Longrightarrow> c' < 8 \<Longrightarrow> (x + c) mod 64 = (x + c') mod 64 \<Longrightarrow> c = (c'::nat)"
  by (rule add_mod_inj [of c 64 c' x]) simp_all

lemma row_inj: "r < 32 \<Longrightarrow> r' < 32 \<Longrightarrow> (y + r) mod 32 = (y + r') mod 32 \<Longrightarrow> r = (r'::nat)"
  by (rule add_mod_inj [of r 32 r' y]) simp_all

lemma distinct_row_pixels: "distinct (row_pixels x y b)"
proof -
  have "inj_on (\<lambda>col. pixel_index (x + col) y) {0..<8}"
  proof (rule inj_onI)
    fix c c' assume "c \<in> {0..<8}" "c' \<in> {0..<8}" "pixel_index (x + c) y = pixel_index (x + c') y"
    then have "c < 8" "c' < 8" "(x + c) mod 64 = (x + c') mod 64"
      by (simp_all, metis pixel_index_col)
    then show "c = c'" by (rule col_inj)
  qed
  then have "inj_on (\<lambda>col. pixel_index (x + col) y) (set (filter (\<lambda>col. bit b (7 - col)) [0..<8]))"
    by (rule inj_on_subset) auto
  then show ?thesis by (simp add: row_pixels_def distinct_map)
qed

lemma row_pixels_row: "p \<in> set (row_pixels x y b) \<Longrightarrow> p div 64 = y mod 32"
  by (auto simp: row_pixels_def pixel_index_row)

lemma footprint_row: "p \<in> set (footprint x y bs) \<Longrightarrow> \<exists>r<length bs. p div 64 = (y + r) mod 32"
proof (induction bs arbitrary: y)
  case Nil
  then show ?case by simp
next
  case (Cons b bs)
  from Cons.prems consider "p \<in> set (row_pixels x y b)" | "p \<in> set (footprint x (y + 1) bs)"
    by auto
  then show ?case
  proof cases
    case 1
    from row_pixels_row [OF 1] show ?thesis by (intro exI [of _ 0]) simp
  next
    case 2
    from Cons.IH [OF 2] obtain r where "r < length bs" "p div 64 = (y + 1 + r) mod 32" by blast
    then show ?thesis by (intro exI [of _ "Suc r"]) simp
  qed
qed

lemma footprint_bound: "p \<in> set (footprint x y bs) \<Longrightarrow> p < 2048"
  by (induction bs arbitrary: y) (auto simp: row_pixels_def pixel_index_bound)

lemma distinct_footprint: "length bs \<le> 32 \<Longrightarrow> distinct (footprint x y bs)"
proof (induction bs arbitrary: y)
  case Nil
  show ?case by simp
next
  case (Cons b bs)
  from Cons.prems have l: "length bs \<le> 32" and l31: "length bs < 32" by simp_all
  have "set (row_pixels x y b) \<inter> set (footprint x (y + 1) bs) = {}"
  proof (rule ccontr)
    assume "set (row_pixels x y b) \<inter> set (footprint x (y + 1) bs) \<noteq> {}"
    then obtain p where p1: "p \<in> set (row_pixels x y b)" and p2: "p \<in> set (footprint x (y + 1) bs)"
      by blast
    from footprint_row [OF p2] obtain r where r: "r < length bs" "p div 64 = (y + 1 + r) mod 32"
      by blast
    with row_pixels_row [OF p1] have "(y + 0) mod 32 = (y + (1 + r)) mod 32" by (simp add: add.assoc)
    moreover from r l31 have "1 + r < 32" by simp
    ultimately have "0 = 1 + r" by (intro row_inj [of 0 "1 + r" y]) simp_all
    then show False by simp
  qed
  with Cons.IH [OF l] distinct_row_pixels show ?case by simp
qed

lemma blit_collision:
  assumes "length d = 2048" and "length sprite \<le> 32"
  shows "snd (blit x y sprite d) = list_ex (\<lambda>p. d ! p) (footprint x y sprite)"
    and "snd (blit x y sprite (fst (blit x y sprite d))) = list_ex (\<lambda>p. \<not> d ! p) (footprint x y sprite)"
proof -
  let ?ps = "footprint x y sprite"
  from assms(2) have dist: "distinct ?ps" by (rule distinct_footprint)
  from assms(1) have rng: "\<forall>p\<in>set ?ps. p < length d" by (simp add: footprint_bound)
  have b1: "blit x y sprite d = (fold flip ?ps d, \<exists>p\<in>set ?ps. d ! p)"
    using fold_xor_distinct [OF dist rng, of False] by (simp add: blit_def blit_rows_fold)
  then show "snd (blit x y sprite d) = list_ex (\<lambda>p. d ! p) ?ps"
    by (simp add: list_ex_iff)
  from rng have rng': "\<forall>p\<in>set ?ps. p < length (fold flip ?ps d)" by (simp add: length_fold_flip)
  have "blit x y sprite (fold flip ?ps d) =
          (fold flip ?ps (fold flip ?ps d), \<exists>p\<in>set ?ps. fold flip ?ps d ! p)"
    using fold_xor_distinct [OF dist rng', of False] by (simp add: blit_def blit_rows_fold)
  moreover have "(\<exists>p\<in>set ?ps. fold flip ?ps d ! p) = (\<exists>p\<in>set ?ps. \<not> d ! p)"
    using rng by (auto simp: fold_flip_nth [OF dist])
  ultimately show "snd (blit x y sprite (fst (blit x y sprite d))) = list_ex (\<lambda>p. \<not> d ! p) ?ps"
    using b1 by (simp add: list_ex_iff)
qed

lemma upt8: "[0..<8] = [0, 1, 2, 3, 4, 5, 6, 7::nat]"
  by code_simp

lemma tick_once:
  "unat (delay_timer (tick_timers s)) = unat (delay_timer s) - 1"
  "unat (sound_timer (tick_timers s)) = unat (sound_timer s) - 1"
  by (simp_all add: tick_timers_def word_gt_0 unat_minus_one unat_eq_zero)

lemma tick_many:
  "unat (delay_timer ((tick_timers ^^ n) s)) = unat (delay_timer s) - n"
  "unat (sound_timer ((tick_timers ^^ n) s)) = unat (sound_timer s) - n"
  by (induction n) (simp_all add: tick_once)

lemma length_overwrite:
  "offset + length bytes \<le> length mem \<Longrightarrow> length (overwrite offset bytes mem) = length mem"
  by (simp add: overwrite_def)

lemma overwrite_read:
  "offset \<le> length mem \<Longrightarrow> take (length bytes) (drop offset (overwrite offset bytes mem)) = bytes"
  by (simp add: overwrite_def)


subsection \<open>Drawing a sprite twice\<close>

text \<open>
  C4 (as amended). For every display, sprite and coordinates, drawing the same sprite at
  the same place twice in succession gives back the display from before the first draw.
  On a display of 64 by 32 pixels and for a sprite of at most 32 rows, the first draw's
  collision flag is set exactly when some pixel of the sprite's footprint was set
  before it, and the second draw's flag is set exactly when some pixel of the footprint
  was clear before the first draw.
\<close>

theorem blit_twice_restores:
  "fst (blit x y sprite (fst (blit x y sprite d))) = d \<and>
   (length d = 64 * 32 \<longrightarrow> length sprite \<le> 32 \<longrightarrow>
      snd (blit x y sprite d) = list_ex (\<lambda>p. d ! p) (footprint x y sprite) \<and>
      snd (blit x y sprite (fst (blit x y sprite d))) =
        list_ex (\<lambda>p. \<not> d ! p) (footprint x y sprite))"
  using blit_twice_display [of x y sprite d] blit_collision [of d sprite x y] by simp

text \<open>A two-row sprite at the bottom right corner: both rows and columns wrap.\<close>

theorem blit_twice_restores_witness:
  "length (replicate 2048 False) = 64 * 32 \<and> length [0xF0, 0x90 :: byte] \<le> 32 \<and>
   footprint 62 31 [0xF0, 0x90] = [2046, 2047, 1984, 1985, 62, 1] \<and>
   \<not> snd (blit 62 31 [0xF0, 0x90] (replicate 2048 False)) \<and>
   snd (blit 62 31 [0xF0, 0x90] (fst (blit 62 31 [0xF0, 0x90] (replicate 2048 False))))"
  using blit_twice_restores [of 62 31 "[0xF0, 0x90]" "replicate 2048 False"]
  by (simp add: row_pixels_def upt8 pixel_index_def SCREEN_WIDTH_def SCREEN_HEIGHT_def)

text \<open>
  C4 as stated fails: on an empty display, draw the one-pixel sprite 0x80 at (0, 0)
  twice. No pixel of its footprint was set before the first draw, yet the second draw
  clears the pixel the first one set, and reports a collision.
\<close>

theorem second_blit_collision_counterexample:
  "snd (blit 0 0 [0x80] (fst (blit 0 0 [0x80] (replicate 2048 False)))) \<noteq>
   list_ex (\<lambda>p. replicate 2048 False ! p) (footprint 0 0 [0x80])"
  by (simp add: blit_def blit_row_def xor_pixel_def pixel_index_def SCREEN_WIDTH_def
      SCREEN_HEIGHT_def row_pixels_def upt8)

subsection \<open>Timers\<close>

text \<open>
  C7. One \<open>tick_timers\<close> call takes 1 off each timer that is not 0 and leaves a timer at 0
  where it is; after \<open>n\<close> calls in a row a timer that started at \<open>t\<close> stands at
  \<open>max 0 (t - n)\<close>.
\<close>

theorem tick_timers_counts_down:
  "delay_timer (tick_timers s) = (if delay_timer s = 0 then 0 else delay_timer s - 1) \<and>
   sound_timer (tick_timers s) = (if sound_timer s = 0 then 0 else sound_timer s - 1) \<and>
   int (unat (delay_timer ((tick_timers ^^ n) s))) = max 0 (int (unat (delay_timer s)) - int n) \<and>
   int (unat (sound_timer ((tick_timers ^^ n) s))) = max 0 (int (unat (sound_timer s)) - int n)"
proof -
  have "delay_timer (tick_timers s) = (if delay_timer s = 0 then 0 else delay_timer s - 1)"
    "sound_timer (tick_timers s) = (if sound_timer s = 0 then 0 else sound_timer s - 1)"
    by (simp_all add: tick_timers_def word_gt_0)
  moreover have
    "int (unat (delay_timer ((tick_timers ^^ n) s))) = max 0 (int (unat (delay_timer s)) - int n)"
    "int (unat (sound_timer ((tick_timers ^^ n) s))) = max 0 (int (unat (sound_timer s)) - int n)"
    unfolding tick_many by linarith+
  ultimately show ?thesis by blast
qed

subsection \<open>Loading a program\<close>

lemma load_game_too_large:
  "length bytes > 3584 \<Longrightarrow> load_game bytes s = (Some LoadError, s)"
  by (simp add: load_game_def write_range_def START_ADDR_def RAM_SIZE_def)

lemma emu_load_game_too_large:
  "length bytes > 3584 \<Longrightarrow> emu_load_game (JsUint8Array bytes) s = (Some ''LoadError'', s)"
  by (simp add: emu_load_game_def load_game_too_large)

lemma core_emu_sel:
  "wasm_reset core_emu = emu_reset"
  "wasm_load_game core_emu = emu_load_game"
  "wasm_tick core_emu = (\<lambda>s. (None, s))"
  "wasm_tick_timers core_emu = (\<lambda>s. (None, tick_timers s))"
  "wasm_draw_screen core_emu k = (\<lambda>s. (None, s))"
  "wasm_keypress core_emu v p = (\<lambda>s. (None, s))"
  by (simp_all add: core_emu_def)

lemma core_mainloop:
  "mainloop core_emu h =
     Returned (h\<lparr>chip8 := tick_timers (chip8 h), anim_frame := next_frame_id h,
                next_frame_id := next_frame_id h + 1,
                pending_frames := pending_frames h @ [next_frame_id h],
                log := log h @ frame_effects (next_frame_id h)\<rparr>)"
  by (simp add: mainloop_def ticks.simps TICKS_PER_FRAME_def call_def core_emu_sel emit_def
      requestAnimationFrame_def frame_effects_list WIDTH_def HEIGHT_def SCALE_def Let_def)

text \<open>
  C9 (as amended). A program of at most 3584 bytes loads after a reset (on a machine with
  its 4096 bytes of memory), the program counter stands at 0x200 and the program's bytes
  are what memory holds from there. \<open>load_game\<close> reports the load error exactly when
  \<open>0x200 + length\<close> exceeds 4096, that is for more than 3584 bytes, and then the machine
  is the one \<open>reset\<close> left. With an emulator object that reports the core's load error by
  throwing, the handler in which the load fails goes no further: the ROM chain logs the
  error, restart stops, and neither runs an instruction or requests a frame. Neither
  cancels a frame that was requested before: in the ROM chain the requested frames are
  those from before the load.
\<close>

theorem load_game_bounds:
  assumes "wasm_reset w = emu_reset" and "wasm_load_game w = emu_load_game"
  shows "(length (memory s) = 4096 \<longrightarrow> length bytes \<le> 3584 \<longrightarrow>
           (\<exists>s'. load_game bytes (reset s) = (None, s') \<and> pc s' = 0x200 \<and>
                  length (memory s') = 4096 \<and>
                  take (length bytes) (drop (unat (pc s')) (memory s')) = bytes)) \<and>
         (fst (load_game bytes s) = Some LoadError \<longleftrightarrow> 0x200 + length bytes > 4096) \<and>
         (fst (load_game bytes s) = None \<longleftrightarrow> length bytes \<le> 3584) \<and>
         (length bytes > 3584 \<longrightarrow> load_game bytes (reset s) = (Some LoadError, reset s)) \<and>
         (length bytes > 3584 \<longrightarrow> ok r \<longrightarrow> arrayBuffer r = Inr bytes \<longrightarrow>
            loadRom_settled w (Response r) h =
              Returned (h\<lparr>chip8 := reset (chip8 h), currentRom := JsUint8Array bytes,
                         log := log h @ [Reset, LoadGame (JsUint8Array bytes),
                                         ConsoleError ''Failed to load ROM: LoadError'']\<rparr>)) \<and>
         (length bytes > 3584 \<longrightarrow> currentRom h = JsUint8Array bytes \<longrightarrow>
            restart_click w h =
              Threw ''LoadError''
                (h\<lparr>chip8 := reset (chip8 h),
                   pending_frames := removeAll (anim_frame h) (pending_frames h),
                   log := log h @ [CancelAnimationFrame (anim_frame h), Reset,
                                   LoadGame (JsUint8Array bytes)]\<rparr>))"
proof (intro conjI impI)
  assume len: "length (memory s) = 4096" and le: "length bytes \<le> 3584"
  have lr: "length (memory (reset s)) = 4096"
    using len by (simp add: reset_def length_overwrite FONT_BASE_def FONTSET_def)
  define s' where "s' = (reset s)\<lparr>memory := overwrite START_ADDR bytes (memory (reset s))\<rparr>"
  from le have "load_game bytes (reset s) = (None, s')"
    by (simp add: load_game_def write_range_def START_ADDR_def RAM_SIZE_def s'_def)
  moreover have "pc s' = 0x200" by (simp add: s'_def reset_def)
  moreover from le lr have "length (memory s') = 4096"
    by (simp add: s'_def length_overwrite START_ADDR_def)
  moreover from lr have "take (length bytes) (drop (unat (pc s')) (memory s')) = bytes"
    by (simp add: s'_def reset_def [of s, THEN arg_cong [of _ _ pc]] overwrite_read START_ADDR_def)
  ultimately show "\<exists>s'. load_game bytes (reset s) = (None, s') \<and> pc s' = 0x200 \<and>
                  length (memory s') = 4096 \<and>
                  take (length bytes) (drop (unat (pc s')) (memory s')) = bytes"
    by blast
next
  show "fst (load_game bytes s) = Some LoadError \<longleftrightarrow> 0x200 + length bytes > 4096"
    by (simp add: load_game_def write_range_def START_ADDR_def RAM_SIZE_def)
next
  show "fst (load_game bytes s) = None \<longleftrightarrow> length bytes \<le> 3584"
    by (auto simp: load_game_def write_range_def START_ADDR_def RAM_SIZE_def)
next
  assume "length bytes > 3584"
  then show "load_game bytes (reset s) = (Some LoadError, reset s)"
    by (rule load_game_too_large)
next
  assume big: "length bytes > 3584" and r: "ok r" "arrayBuffer r = Inr bytes"
  have "wasm_reset w (chip8 h) = (None, reset (chip8 h))"
    by (simp add: assms emu_reset_def)
  moreover have "wasm_load_game w (JsUint8Array bytes) (reset (chip8 h)) =
      (Some ''LoadError'', reset (chip8 h))"
    by (simp add: assms emu_load_game_too_large [OF big])
  ultimately show "loadRom_settled w (Response r) h =
              Returned (h\<lparr>chip8 := reset (chip8 h), currentRom := JsUint8Array bytes,
                         log := log h @ [Reset, LoadGame (JsUint8Array bytes),
                                         ConsoleError ''Failed to load ROM: LoadError'']\<rparr>)"
    using r load_failure_stops_loadRom [of w h "reset (chip8 h)" bytes "''LoadError''"
        "reset (chip8 h)" r]
    by simp
next
  assume big: "length bytes > 3584" and c: "currentRom h = JsUint8Array bytes"
  have "wasm_reset w (chip8 h) = (None, reset (chip8 h))"
    by (simp add: assms emu_reset_def)
  moreover have "wasm_load_game w (currentRom h) (reset (chip8 h)) =
      (Some ''LoadError'', reset (chip8 h))"
    by (simp add: assms c emu_load_game_too_large [OF big])
  ultimately show "restart_click w h =
              Threw ''LoadError''
                (h\<lparr>chip8 := reset (chip8 h),
                   pending_frames := removeAll (anim_frame h) (pending_frames h),
                   log := log h @ [CancelAnimationFrame (anim_frame h), Reset,
                                   LoadGame (JsUint8Array bytes)]\<rparr>)"
    using load_failure_stops_restart [of w h "reset (chip8 h)" "''LoadError''" "reset (chip8 h)"] c
    by simp
qed

theorem load_game_bounds_witness:
  "length (memory blank_vm) = 4096 \<and>
   fst (load_game [0x12, 0x00] (reset blank_vm)) = None \<and>
   pc (snd (load_game [0x12, 0x00] (reset blank_vm))) = 0x200 \<and>
   take (length [0x12, 0x00 :: byte])
     (drop 512 (memory (snd (load_game [0x12, 0x00] (reset blank_vm))))) = [0x12, 0x00] \<and>
   load_game (replicate 3585 0) (reset blank_vm) = (Some LoadError, reset blank_vm) \<and>
   loadRom_settled core_emu
     (Response \<lparr>ok = True, status = 200, statusText = ''OK'', arrayBuffer = Inr (replicate 3585 0)\<rparr>)
     core_host =
   Returned (core_host\<lparr>chip8 := reset blank_vm, currentRom := JsUint8Array (replicate 3585 0),
      log := log core_host @ [Reset, LoadGame (JsUint8Array (replicate 3585 0)),
        ConsoleError ''Failed to load ROM: LoadError'']\<rparr>)"
proof -
  note w = core_emu_sel(1,2)
  have l: "length (memory blank_vm) = 4096" by (simp add: blank_vm_def)
  from load_game_bounds [OF w, of blank_vm "[0x12, 0x00]", THEN conjunct1] l obtain s' where
    s': "load_game [0x12, 0x00] (reset blank_vm) = (None, s')" "pc s' = 0x200"
      "take (length [0x12, 0x00 :: byte]) (drop (unat (pc s')) (memory s')) = [0x12, 0x00]"
    by auto
  have c: "chip8 core_host = blank_vm"
    by (simp add: core_host_def run_def loadRom_def emit_def)
  from load_game_bounds [OF w, of blank_vm "replicate 3585 0"
      "\<lparr>ok = True, status = 200, statusText = ''OK'', arrayBuffer = Inr (replicate 3585 0)\<rparr>"
      core_host] c
  have big: "load_game (replicate 3585 0) (reset blank_vm) = (Some LoadError, reset blank_vm)"
    and host: "loadRom_settled core_emu
     (Response \<lparr>ok = True, status = 200, statusText = ''OK'', arrayBuffer = Inr (replicate 3585 0)\<rparr>)
     core_host =
   Returned (core_host\<lparr>chip8 := reset blank_vm, currentRom := JsUint8Array (replicate 3585 0),
      log := log core_host @ [Reset, LoadGame (JsUint8Array (replicate 3585 0)),
        ConsoleError ''Failed to load ROM: LoadError'']\<rparr>)"
    by simp_all
  from l s' big host show ?thesis by simp
qed

text \<open>
  C9 as stated fails in its last part, "no execution is attempted". Start is clicked while
  the ROM is still being fetched; the ROM turns out one byte too long, so the load fails
  with the load error; the frame that Start requested is still pending, and when the
  browser runs it the loop executes: five \<open>tick\<close> calls follow the failed \<open>load_game\<close>.
\<close>

theorem frame_runs_after_failed_load:
  "fst (load_game (replicate 3585 0) (reset blank_vm)) = Some LoadError \<and>
   vm_calls (log (run_events core_emu
      [StartClick,
       FetchSettled (Response \<lparr>ok = True, status = 200, statusText = ''OK'',
                                arrayBuffer = Inr (replicate 3585 0)\<rparr>),
       AnimationFrame 1]
      core_host)) =
   [Reset, LoadGame (JsUint8Array (replicate 3585 0)),
    Tick, Tick, Tick, Tick, Tick, TickTimers, DrawScreen 12]"
proof -
  have "fst (load_game (replicate 3585 0) (reset blank_vm)) = Some LoadError"
    by (simp add: load_game_too_large)
  moreover have "log (run_events core_emu
      [StartClick,
       FetchSettled (Response \<lparr>ok = True, status = 200, statusText = ''OK'',
                                arrayBuffer = Inr (replicate 3585 0)\<rparr>),
       AnimationFrame 1]
      core_host) =
     [Fetch ''roms/15PUZZLE'', RequestAnimationFrame 1, Reset,
      LoadGame (JsUint8Array (replicate 3585 0)),
      ConsoleError ''Failed to load ROM: LoadError''] @ frame_effects 2"
    by (simp add: core_host_def run_def loadRom_def emit_def ROMS_def start_click_def
        requestAnimationFrame_def Let_def loadRom_settled_def on_response_def on_buffer_def
        on_error_def call_def core_emu_sel emu_reset_def emu_load_game_too_large
        animation_frame_def core_mainloop numeral_2_eq_2)
  ultimately show ?thesis
    by (simp add: vm_calls_def frame_effects_list)
qed


end
